theory Spec2Isabelle
  imports Main
begin

section \<open>The prefetching frame cache of \<^verbatim>\<open>sam2/utils/misc.py\<close>\<close>

text \<open>
  The development embeds three classes of the source: \<^verbatim>\<open>LRACache\<close> (an
  \<^verbatim>\<open>OrderedDict\<close> with a size bound), \<^verbatim>\<open>TaskQueue\<close> (a queue drained by worker
  threads) and \<^verbatim>\<open>AsyncVideoFrameLoader\<close> (the consumer-facing object with its
  background scheduling thread). Python exceptions are values of \<open>exn\<close>; an object's
  mutable fields are a record that every operation returns updated; the threads are
  step functions on that record, interleaved by a list of actions.
\<close>

subsection \<open>Exceptions\<close>

text \<open>
  \<open>RuntimeError msg cause\<close> is \<^verbatim>\<open>raise RuntimeError(msg) from cause\<close>; \<open>LoadError\<close>
  stands for whatever \<^verbatim>\<open>_load_img_as_tensor\<close> raises on a path it cannot decode; \<open>ProgressError\<close>
  for whatever the progress bar raises.
\<close>

datatype exn =
    IndexError
  | KeyError int
  | LoadError string
  | ProgressError
  | RuntimeError string exn

subsection \<open>\<^verbatim>\<open>OrderedDict\<close>: an association list in insertion order\<close>

text \<open>
  \<^verbatim>\<open>d[k] = v\<close> overwrites the value of a key that is present and leaves its position
  alone; a new key goes to the end.
\<close>

fun od_setitem :: "('k \<times> 'v) list \<Rightarrow> 'k \<Rightarrow> 'v \<Rightarrow> ('k \<times> 'v) list" where
  "od_setitem [] k v = [(k, v)]"
| "od_setitem ((k', v') # kvs) k v =
     (if k' = k then (k, v) # kvs else (k', v') # od_setitem kvs k v)"

text \<open>\<^verbatim>\<open>del d[k]\<close> for a key that is present (the callers below establish that).\<close>

fun od_delitem :: "('k \<times> 'v) list \<Rightarrow> 'k \<Rightarrow> ('k \<times> 'v) list" where
  "od_delitem [] k = []"
| "od_delitem ((k', v') # kvs) k =
     (if k' = k then kvs else (k', v') # od_delitem kvs k)"

definition od_keys :: "('k \<times> 'v) list \<Rightarrow> 'k list" where
  "od_keys kvs = map fst kvs"

subsection \<open>\<^verbatim>\<open>LRACache\<close>\<close>

record ('k, 'v) LRACache =
  maxsize :: int
  entries :: "('k \<times> 'v) list"

definition LRACache_init :: "int \<Rightarrow> ('k, 'v) LRACache" where
  "LRACache_init m = \<lparr>maxsize = m, entries = []\<rparr>"

definition cache_len :: "('k, 'v) LRACache \<Rightarrow> int" where
  "cache_len c = int (length (entries c))"

definition cache_keys :: "('k, 'v) LRACache \<Rightarrow> 'k list" where
  "cache_keys c = od_keys (entries c)"

text \<open>\<^verbatim>\<open>key in cache\<close>.\<close>

definition cache_contains :: "('k, 'v) LRACache \<Rightarrow> 'k \<Rightarrow> bool" where
  "cache_contains c k = (k \<in> set (cache_keys c))"

text \<open>\<^verbatim>\<open>LRACache.__getitem__\<close>: a plain dictionary read; \<open>None\<close> is \<^verbatim>\<open>KeyError\<close>. It
  returns a value only: a read does not reorder the entries.\<close>

definition LRACache_getitem :: "('k, 'v) LRACache \<Rightarrow> 'k \<Rightarrow> 'v option" where
  "LRACache_getitem c k = map_of (entries c) k"

text \<open>
  \<^verbatim>\<open>LRACache.__setitem__\<close>: store, then, if the length exceeds \<^verbatim>\<open>maxsize\<close>, delete the
  first key of the iteration order. The dictionary is not empty after the store, so
  \<^verbatim>\<open>next(iter(self))\<close> cannot raise.
\<close>

definition LRACache_setitem :: "('k, 'v) LRACache \<Rightarrow> 'k \<Rightarrow> 'v \<Rightarrow> ('k, 'v) LRACache" where
  "LRACache_setitem c k v =
     (let kvs = od_setitem (entries c) k v in
      if int (length kvs) > maxsize c
      then (let oldest = fst (hd kvs) in c\<lparr>entries := od_delitem kvs oldest\<rparr>)
      else c\<lparr>entries := kvs\<rparr>)"

definition LRACache_delitem :: "('k, 'v) LRACache \<Rightarrow> 'k \<Rightarrow> ('k, 'v) LRACache" where
  "LRACache_delitem c k = c\<lparr>entries := od_delitem (entries c) k\<rparr>"

text \<open>A finite sequence of inserts, in order.\<close>

fun insert_all :: "('k, 'v) LRACache \<Rightarrow> ('k \<times> 'v) list \<Rightarrow> ('k, 'v) LRACache" where
  "insert_all c [] = c"
| "insert_all c ((k, v) # kvs) = insert_all (LRACache_setitem c k v) kvs"

subsection \<open>The loader object\<close>

text \<open>
  The constructor's arguments never change afterwards; they are the environment \<open>E\<close>.
  \<open>load_img\<close> is \<^verbatim>\<open>_load_img_as_tensor\<close> (image, height, width, or an exception),
  \<open>normalize\<close> is the tensor arithmetic and device transfer of \<^verbatim>\<open>_load_frame\<close>, and
  \<open>refresh\<close> is the progress bar update of the scheduling thread; the model looks
  inside none of them.
\<close>

record 'a env =
  img_paths :: "string list"
  cache_size :: int
  start_frame :: int
  load_img :: "string \<Rightarrow> exn + ('a \<times> int \<times> int)"
  normalize :: "'a \<Rightarrow> 'a"
  refresh :: "int \<Rightarrow> exn option"

text \<open>
  A worker thread of \<^verbatim>\<open>TaskQueue\<close> is idle at \<^verbatim>\<open>tasks.get\<close>, or inside \<^verbatim>\<open>func(frame)\<close>
  for a frame it took from the queue, or has terminated with the exception that left
  its loop.
\<close>

datatype worker = Idle | Loading int | Dead exn

text \<open>
  The thread running \<^verbatim>\<open>_load_frames\<close>: not yet started; at the top of \<^verbatim>\<open>while True\<close>;
  in the \<^verbatim>\<open>for\<close> loop with \<open>current_frame\<close>, the next \<open>frame\<close> of the range and
  \<open>end_frame\<close>; asleep with \<open>just_ran\<close>; or finished through the \<^verbatim>\<open>except\<close> clause.
\<close>

datatype loader_thread =
    NotStarted
  | Top
  | Loop int int int
  | Wait int
  | Stopped

text \<open>
  The mutable fields. \<open>tasks\<close> is the queue of \<^verbatim>\<open>TaskQueue\<close>: every task of the source is
  \<^verbatim>\<open>(frame, self._load_frame)\<close>, so the frame stands for the task. \<open>load_calls\<close> is a
  ghost field: the arguments of the calls of \<^verbatim>\<open>_load_frame\<close> so far, in order. Nothing
  reads it.
\<close>

record 'a loader =
  images :: "(int, 'a) LRACache"
  exception :: "exn option"
  video_height :: "int option"
  video_width :: "int option"
  last_accessed_frame :: int
  tasks :: "int list"
  workers :: "worker list"
  thread :: loader_thread
  load_calls :: "int list"

text \<open>
  \<^verbatim>\<open>self.img_paths[index]\<close>: an index below zero is taken from the end of the
  list, and one outside both ranges raises.
\<close>

definition py_index :: "'b list \<Rightarrow> int \<Rightarrow> exn + 'b" where
  "py_index xs i =
     (if 0 \<le> i \<and> i < int (length xs) then Inr (xs ! nat i)
      else if i < 0 \<and> - int (length xs) \<le> i then Inr (xs ! nat (int (length xs) + i))
      else Inl IndexError)"

text \<open>
  The body of \<^verbatim>\<open>_load_frame\<close> after its entry: the path lookup, the decode, the two
  dimension fields, the store into the cache. \<open>Some e\<close> is the exception raised.
\<close>

definition load_frame_body :: "'a env \<Rightarrow> int \<Rightarrow> 'a loader \<Rightarrow> exn option \<times> 'a loader" where
  "load_frame_body E index s =
     (case py_index (img_paths E) index of
        Inl e \<Rightarrow> (Some e, s)
      | Inr path \<Rightarrow>
          (case load_img E path of
             Inl e \<Rightarrow> (Some e, s)
           | Inr (img, h, w) \<Rightarrow>
               (None, s\<lparr>video_height := Some h, video_width := Some w,
                        images := LRACache_setitem (images s) index (normalize E img)\<rparr>)))"

definition load_frame :: "'a env \<Rightarrow> int \<Rightarrow> 'a loader \<Rightarrow> exn option \<times> 'a loader" where
  "load_frame E index s = load_frame_body E index (s\<lparr>load_calls := load_calls s @ [index]\<rparr>)"

text \<open>
  \<^verbatim>\<open>AsyncVideoFrameLoader.__getitem__\<close>, run by the consumer without interruption.
  \<open>serve\<close> is the part after the assignment to the cursor: the membership test with
  its miss branch (load, then read back) and its hit branch (read, then delete). The
  \<^verbatim>\<open>print\<close> of the miss branch is left out.
\<close>

definition serve :: "'a env \<Rightarrow> int \<Rightarrow> 'a loader \<Rightarrow> (exn + 'a) \<times> 'a loader" where
  "serve E index s =
     (if \<not> cache_contains (images s) index then
        (case load_frame E index s of
           (Some e, s') \<Rightarrow> (Inl e, s')
         | (None, s') \<Rightarrow>
             (case LRACache_getitem (images s') index of
                None \<Rightarrow> (Inl (KeyError index), s')
              | Some res \<Rightarrow> (Inr res, s')))
      else
        (case LRACache_getitem (images s) index of
           None \<Rightarrow> (Inl (KeyError index), s)
         | Some res \<Rightarrow> (Inr res, s\<lparr>images := LRACache_delitem (images s) index\<rparr>)))"

definition getitem :: "'a env \<Rightarrow> int \<Rightarrow> 'a loader \<Rightarrow> (exn + 'a) \<times> 'a loader" where
  "getitem E index s =
     (case exception s of
        Some e \<Rightarrow> (Inl (RuntimeError ''Failure in frame loading thread'' e), s)
      | None \<Rightarrow> serve E index (s\<lparr>last_accessed_frame := index\<rparr>))"






text \<open>
  \<^verbatim>\<open>K = int(self.cache_size * 0.75)\<close>. The product is a binary64 float: 0.75 is
  exact there and so is three quarters of any integer below \<open>2 ^ 51\<close> in magnitude;
  \<^verbatim>\<open>int\<close> truncates toward zero.
\<close>

definition window_size :: "int \<Rightarrow> int" where
  "window_size c = (if 0 \<le> c then (3 * c) div 4 else - ((3 * (- c)) div 4))"

definition total_frames :: "'a env \<Rightarrow> int" where
  "total_frames E = int (length (img_paths E))"

text \<open>\<^verbatim>\<open>TaskQueue.add_task\<close>.\<close>

definition add_task :: "int \<Rightarrow> 'a loader \<Rightarrow> 'a loader" where
  "add_task frame s = s\<lparr>tasks := tasks s @ [frame]\<rparr>"

text \<open>
  One step of \<^verbatim>\<open>_load_frames\<close>. At the top of the outer loop it reads the cursor and
  computes \<open>end_frame\<close>; in the \<^verbatim>\<open>for\<close> loop it tests one frame and perhaps queues it;
  after the last frame it refreshes the progress bar (an exception there reaches the
  \<^verbatim>\<open>except\<close> clause, which records it and ends the thread) and sets \<open>just_ran\<close>;
  asleep, it compares \<open>just_ran\<close> with the cursor.
\<close>

definition loader_step :: "'a env \<Rightarrow> 'a loader \<Rightarrow> 'a loader" where
  "loader_step E s =
     (case thread s of
        NotStarted \<Rightarrow> s
      | Top \<Rightarrow>
          (let current_frame = last_accessed_frame s;
               end_frame = min (current_frame + window_size (cache_size E)) (total_frames E)
           in s\<lparr>thread := Loop current_frame current_frame end_frame\<rparr>)
      | Loop current_frame frame end_frame \<Rightarrow>
          (if frame < end_frame then
             (if \<not> cache_contains (images s) frame
              then (add_task frame s)\<lparr>thread := Loop current_frame (frame + 1) end_frame\<rparr>
              else s\<lparr>thread := Loop current_frame (frame + 1) end_frame\<rparr>)
           else
             (case refresh E current_frame of
                Some e \<Rightarrow> s\<lparr>exception := Some e, thread := Stopped\<rparr>
              | None \<Rightarrow> s\<lparr>thread := Wait current_frame\<rparr>))
      | Wait just_ran \<Rightarrow>
          (if just_ran = last_accessed_frame s then s else s\<lparr>thread := Top\<rparr>)
      | Stopped \<Rightarrow> s)"

text \<open>
  One step of worker \<open>w\<close> in \<^verbatim>\<open>TaskQueue._worker\<close>. Idle, it takes the head of the queue
  and enters \<^verbatim>\<open>func(frame)\<close>, or finds the queue empty (\<^verbatim>\<open>queue.Empty\<close> after the
  timeout, caught, \<^verbatim>\<open>continue\<close>). Loading, it finishes \<^verbatim>\<open>_load_frame\<close>: a normal return
  leads back to \<^verbatim>\<open>tasks.get\<close>; an exception is not \<^verbatim>\<open>queue.Empty\<close>, so no clause
  catches it, it leaves \<^verbatim>\<open>while True\<close> and the thread ends. The queue's count of
  unfinished tasks, which \<^verbatim>\<open>task_done\<close> lowers, is left out: the source never joins
  the queue.
\<close>

definition worker_step :: "'a env \<Rightarrow> nat \<Rightarrow> 'a loader \<Rightarrow> 'a loader" where
  "worker_step E w s =
     (if w < length (workers s) then
        (case workers s ! w of
           Idle \<Rightarrow>
             (case tasks s of
                [] \<Rightarrow> s
              | frame # rest \<Rightarrow>
                  s\<lparr>tasks := rest, workers := (workers s)[w := Loading frame],
                    load_calls := load_calls s @ [frame]\<rparr>)
         | Loading frame \<Rightarrow>
             (case load_frame_body E frame s of
                (Some e, s') \<Rightarrow> s'\<lparr>workers := (workers s')[w := Dead e]\<rparr>
              | (None, s') \<Rightarrow> s'\<lparr>workers := (workers s')[w := Idle]\<rparr>)
         | Dead e \<Rightarrow> s)
      else s)"

text \<open>
  \<^verbatim>\<open>AsyncVideoFrameLoader.__init__\<close>: the fields, the ten workers of
  \<^verbatim>\<open>TaskQueue(num_workers=10)\<close>, the load of the start frame through \<^verbatim>\<open>__getitem__\<close>
  (an exception there leaves the constructor), and only then the scheduling thread.
\<close>

definition fresh :: "'a env \<Rightarrow> 'a loader" where
  "fresh E =
     \<lparr>images = LRACache_init (cache_size E), exception = None,
      video_height = None, video_width = None,
      last_accessed_frame = start_frame E, tasks = [],
      workers = replicate 10 Idle, thread = NotStarted, load_calls = []\<rparr>"

definition init :: "'a env \<Rightarrow> exn + 'a loader" where
  "init E =
     (case getitem E (start_frame E) (fresh E) of
        (Inl e, s) \<Rightarrow> Inl e
      | (Inr res, s) \<Rightarrow> Inr (s\<lparr>thread := Top\<rparr>))"

subsection \<open>Interleavings\<close>

datatype action = Get int | Work nat | Schedule

definition step :: "'a env \<Rightarrow> action \<Rightarrow> 'a loader \<Rightarrow> 'a loader" where
  "step E a s =
     (case a of
        Get index \<Rightarrow> snd (getitem E index s)
      | Work w \<Rightarrow> worker_step E w s
      | Schedule \<Rightarrow> loader_step E s)"

fun run :: "'a env \<Rightarrow> action list \<Rightarrow> 'a loader \<Rightarrow> 'a loader" where
  "run E [] s = s"
| "run E (a # as) s = run E as (step E a s)"

text \<open>The states of a constructed loader under every schedule.\<close>

inductive reachable :: "'a env \<Rightarrow> 'a loader \<Rightarrow> bool" for E :: "'a env" where
  constructed: "init E = Inr s \<Longrightarrow> reachable E s"
| stepped: "reachable E s \<Longrightarrow> reachable E (step E a s)"

text \<open>A constructed loader after a schedule; \<open>Inl\<close> when the constructor raised.\<close>

definition boot :: "'a env \<Rightarrow> action list \<Rightarrow> exn + 'a loader" where
  "boot E as = (case init E of Inl e \<Rightarrow> Inl e | Inr s \<Rightarrow> Inr (run E as s))"

text \<open>The result of \<^verbatim>\<open>loader[index]\<close> after a schedule.\<close>

definition get_after :: "'a env \<Rightarrow> action list \<Rightarrow> int \<Rightarrow> exn + 'a" where
  "get_after E as index =
     (case boot E as of Inl e \<Rightarrow> Inl e | Inr s \<Rightarrow> fst (getitem E index s))"


subsection \<open>Two concrete loaders\<close>

text \<open>
  Four frames and a cache of four, so \<open>K = 3\<close>. A decoded frame is represented by
  the length of its path. In \<open>corrupt_env\<close> the file of frame 1 cannot be decoded.
\<close>

definition sound_env :: "nat env" where
  "sound_env =
     \<lparr>img_paths = [''0.jpg'', ''1.jpg'', ''2.jpg'', ''3.jpg''], cache_size = 4,
      start_frame = 0,
      load_img = (\<lambda>p. Inr (length p, 480, 640)),
      normalize = (\<lambda>img. img),
      refresh = (\<lambda>n. None)\<rparr>"

definition corrupt_env :: "nat env" where
  "corrupt_env =
     sound_env\<lparr>load_img :=
       (\<lambda>p. if p = ''1.jpg'' then Inl (LoadError p) else Inr (length p, 480, 640))\<rparr>"

text \<open>A loader whose progress bar raises.\<close>

definition failing_bar_env :: "nat env" where
  "failing_bar_env = sound_env\<lparr>refresh := (\<lambda>n. Some ProgressError)\<rparr>"

text \<open>
  One full scheduling iteration from the top of \<^verbatim>\<open>while True\<close> with \<open>K = 3\<close>: the
  read of the cursor, three tests of the \<^verbatim>\<open>for\<close> loop, the exit to the sleep.
\<close>

definition iteration :: "action list" where
  "iteration = [Schedule, Schedule, Schedule, Schedule, Schedule]"



text \<open>The loader that the constructor returns for \<open>sound_env\<close>.\<close>

definition warm :: "nat loader" where
  "warm = (snd (getitem sound_env 0 (fresh sound_env)))\<lparr>thread := Top\<rparr>"

text \<open>
  The representation invariant of a cache of capacity \<open>m\<close>: the keys of a dictionary
  are distinct, and the bound holds.
\<close>

definition cache_ok :: "int \<Rightarrow> ('k, 'v) LRACache \<Rightarrow> bool" where
  "cache_ok m c = (distinct (cache_keys c) \<and> cache_len c \<le> maxsize c \<and> maxsize c = m)"

section \<open>The cache\<close>

lemma od_setitem_not_Nil: "od_setitem kvs k v \<noteq> []"
  by (cases kvs) (auto split: if_splits)

lemma od_setitem_absent: "k \<notin> set (map fst kvs) \<Longrightarrow> od_setitem kvs k v = kvs @ [(k, v)]"
  by (induction kvs) auto

lemma od_setitem_present_keys:
  "k \<in> set (map fst kvs) \<Longrightarrow> map fst (od_setitem kvs k v) = map fst kvs"
  by (induction kvs) force+

lemma length_od_setitem:
  "length (od_setitem kvs k v) =
     (if k \<in> set (map fst kvs) then length kvs else Suc (length kvs))"
  by (induction kvs) force+

lemma od_delitem_oldest: "kvs \<noteq> [] \<Longrightarrow> od_delitem kvs (fst (hd kvs)) = tl kvs"
  by (cases kvs) auto

text \<open>The eviction deletes the head of the list, whatever the keys are.\<close>

lemma setitem_entries:
  "entries (LRACache_setitem c k v) =
     (if int (length (od_setitem (entries c) k v)) > maxsize c
      then tl (od_setitem (entries c) k v) else od_setitem (entries c) k v)"
  by (simp add: LRACache_setitem_def Let_def od_delitem_oldest od_setitem_not_Nil)

lemma setitem_maxsize: "maxsize (LRACache_setitem c k v) = maxsize c"
  by (simp add: LRACache_setitem_def Let_def)

lemma setitem_len_le:
  "cache_len c \<le> maxsize c \<Longrightarrow> cache_len (LRACache_setitem c k v) \<le> maxsize c"
  by (auto simp: cache_len_def setitem_entries length_od_setitem)

lemma insert_all_bound:
  "cache_len c \<le> maxsize c \<Longrightarrow>
   cache_len (insert_all c kvs) \<le> maxsize c \<and> maxsize (insert_all c kvs) = maxsize c"
proof (induction kvs arbitrary: c)
  case Nil
  then show ?case by simp
next
  case (Cons p kvs)
  obtain k v where p: "p = (k, v)" by (cases p)
  have "cache_len (LRACache_setitem c k v) \<le> maxsize (LRACache_setitem c k v)"
    using Cons.prems by (simp add: setitem_len_le setitem_maxsize)
  from Cons.IH [OF this] show ?case by (simp add: p setitem_maxsize)
qed

text \<open>
  C3 (capacity invariant). A cache constructed with capacity \<open>m \<ge> 0\<close> holds at most
  \<open>m\<close> entries after each insert of any finite sequence of inserts: after the first
  \<open>n\<close> inserts of the sequence, for every \<open>n\<close>.
\<close>

theorem capacity_invariant:
  "0 \<le> m \<Longrightarrow> cache_len (insert_all (LRACache_init m) (take n kvs)) \<le> m"
  using insert_all_bound [of "LRACache_init m" "take n kvs"]
  by (simp add: LRACache_init_def cache_len_def)

theorem capacity_invariant_witness:
  "(0::int) \<le> 2
   \<and> cache_len (insert_all (LRACache_init 2)
         (take 3 [(1::int, ''a''), (2, ''b''), (3, ''c''), (4, ''d'')])) \<le> 2
   \<and> cache_len (insert_all (LRACache_init 2)
         (take 3 [(1::int, ''a''), (2, ''b''), (3, ''c''), (4, ''d'')])) = 2"
  using capacity_invariant [of 2 3 "[(1::int, ''a''), (2, ''b''), (3, ''c''), (4, ''d'')]"]
  by (simp add: LRACache_init_def cache_len_def LRACache_setitem_def Let_def)

lemma od_setitem_keys:
  "map fst (od_setitem kvs k v) =
     (if k \<in> set (map fst kvs) then map fst kvs else map fst kvs @ [k])"
  by (simp add: od_setitem_present_keys od_setitem_absent)

lemma od_delitem_keys: "map fst (od_delitem kvs k) = remove1 k (map fst kvs)"
  by (induction kvs) auto

lemma contains_iff_getitem: "cache_contains c k \<longleftrightarrow> LRACache_getitem c k \<noteq> None"
  by (simp add: cache_contains_def cache_keys_def od_keys_def LRACache_getitem_def
      map_of_eq_None_iff)

lemma delitem_not_contains:
  "distinct (cache_keys c) \<Longrightarrow> \<not> cache_contains (LRACache_delitem c k) k"
  by (simp add: cache_contains_def cache_keys_def od_keys_def LRACache_delitem_def
      od_delitem_keys)

text \<open>
  C4 (insertion-order eviction). Storing a new key into a cache that it overfills
  drops exactly the head of the insertion order and appends the new entry; when the
  bound still holds nothing is dropped; overwriting a key that is present keeps the
  order. A read returns a value and leaves the order alone, so the victim is the
  oldest insert whatever was read. With capacity 2 and inserts of 1, 2, 3, key 1 can
  still be read after the second insert and the keys left after the third are 2, 3.
\<close>

theorem eviction_order:
  fixes c :: "('k, 'v) LRACache" and v a b d :: 'v
  shows "(\<not> cache_contains c k \<and> cache_len c + 1 > maxsize c \<longrightarrow>
      entries (LRACache_setitem c k v) = tl (entries c @ [(k, v)]))
   \<and> (\<not> cache_contains c k \<and> cache_len c + 1 \<le> maxsize c \<longrightarrow>
      entries (LRACache_setitem c k v) = entries c @ [(k, v)])
   \<and> (cache_contains c k \<and> cache_len c \<le> maxsize c \<longrightarrow>
      cache_keys (LRACache_setitem c k v) = cache_keys c)
   \<and> LRACache_getitem (insert_all (LRACache_init 2) [(1::int, a), (2, b)]) 1 = Some a
   \<and> cache_keys (insert_all (LRACache_init 2) [(1::int, a), (2, b), (3, d)]) = [2, 3]"
  by (auto simp: cache_contains_def cache_keys_def od_keys_def cache_len_def setitem_entries
      od_setitem_absent LRACache_init_def LRACache_getitem_def setitem_maxsize
      od_setitem_present_keys length_od_setitem)

theorem eviction_order_witness:
  "\<not> cache_contains \<lparr>maxsize = 2, entries = [(1::int, ''a''), (2, ''b'')]\<rparr> 3
   \<and> entries (LRACache_setitem \<lparr>maxsize = 2, entries = [(1::int, ''a''), (2, ''b'')]\<rparr> 3 ''c'')
       = [(2, ''b''), (3, ''c'')]
   \<and> \<not> cache_contains \<lparr>maxsize = 2, entries = [(1::int, ''a'')]\<rparr> 2
   \<and> entries (LRACache_setitem \<lparr>maxsize = 2, entries = [(1::int, ''a'')]\<rparr> 2 ''b'')
       = [(1, ''a''), (2, ''b'')]
   \<and> cache_contains \<lparr>maxsize = 2, entries = [(1::int, ''a''), (2, ''b'')]\<rparr> 1
   \<and> cache_keys (LRACache_setitem \<lparr>maxsize = 2, entries = [(1::int, ''a''), (2, ''b'')]\<rparr> 1 ''z'')
       = [1, 2]"
  using
    eviction_order [of "\<lparr>maxsize = 2, entries = [(1::int, ''a''), (2, ''b'')]\<rparr>" 3 "''c''"
      "''a''" "''b''" "''c''"]
    eviction_order [of "\<lparr>maxsize = 2, entries = [(1::int, ''a'')]\<rparr>" 2 "''b''"
      "''a''" "''b''" "''c''"]
    eviction_order [of "\<lparr>maxsize = 2, entries = [(1::int, ''a''), (2, ''b'')]\<rparr>" 1 "''z''"
      "''a''" "''b''" "''c''"]
  by (simp add: cache_contains_def cache_keys_def od_keys_def cache_len_def)





text \<open>Both cache updates keep the representation invariant.\<close>

lemma cache_ok_setitem:
  assumes "cache_ok m c"
  shows "cache_ok m (LRACache_setitem c k v)"
proof -
  from assms have d: "distinct (map fst (entries c))" and l: "cache_len c \<le> maxsize c"
    and m: "maxsize c = m"
    by (simp_all add: cache_ok_def cache_keys_def od_keys_def)
  have "distinct (map fst (od_setitem (entries c) k v))"
    using d by (simp add: od_setitem_keys)
  then have "distinct (cache_keys (LRACache_setitem c k v))"
    by (simp add: cache_keys_def od_keys_def setitem_entries map_tl distinct_tl)
  moreover have "cache_len (LRACache_setitem c k v) \<le> maxsize c"
    using l by (rule setitem_len_le)
  ultimately show ?thesis by (simp add: cache_ok_def setitem_maxsize m)
qed

lemma cache_ok_delitem: "cache_ok m c \<Longrightarrow> cache_ok m (LRACache_delitem c k)"
proof -
  assume a: "cache_ok m c"
  have "length (remove1 k (map fst (entries c))) \<le> length (map fst (entries c))"
    by (simp add: length_remove1)
  then have "length (od_delitem (entries c) k) \<le> length (entries c)"
    by (metis od_delitem_keys length_map)
  then show ?thesis
    using a by (simp add: cache_ok_def cache_keys_def od_keys_def cache_len_def
        LRACache_delitem_def od_delitem_keys)
qed

section \<open>What each operation leaves alone\<close>

lemma load_frame_body_frame:
  "exception (snd (load_frame_body E i s)) = exception s"
  "last_accessed_frame (snd (load_frame_body E i s)) = last_accessed_frame s"
  "tasks (snd (load_frame_body E i s)) = tasks s"
  "workers (snd (load_frame_body E i s)) = workers s"
  "thread (snd (load_frame_body E i s)) = thread s"
  "load_calls (snd (load_frame_body E i s)) = load_calls s"
  by (simp_all add: load_frame_body_def split: sum.splits prod.splits)

lemma load_frame_frame:
  "exception (snd (load_frame E i s)) = exception s"
  "last_accessed_frame (snd (load_frame E i s)) = last_accessed_frame s"
  "tasks (snd (load_frame E i s)) = tasks s"
  "workers (snd (load_frame E i s)) = workers s"
  "thread (snd (load_frame E i s)) = thread s"
  "load_calls (snd (load_frame E i s)) = load_calls s @ [i]"
  by (simp_all add: load_frame_def load_frame_body_frame)

lemma serve_frame:
  "exception (snd (serve E i s)) = exception s"
  "last_accessed_frame (snd (serve E i s)) = last_accessed_frame s"
  "tasks (snd (serve E i s)) = tasks s"
  "workers (snd (serve E i s)) = workers s"
  "thread (snd (serve E i s)) = thread s"
  using load_frame_frame [of E i s]
  by (auto simp: serve_def split: prod.splits option.splits)

text \<open>A hit calls no load; a miss calls exactly one, for the index asked.\<close>

lemma serve_load_calls:
  "load_calls (snd (serve E i s)) =
     (if cache_contains (images s) i then load_calls s else load_calls s @ [i])"
  using load_frame_frame(6) [of E i s]
  by (auto simp: serve_def split: prod.splits option.splits)

lemma getitem_frame:
  "exception (snd (getitem E i s)) = exception s"
  "tasks (snd (getitem E i s)) = tasks s"
  "workers (snd (getitem E i s)) = workers s"
  "thread (snd (getitem E i s)) = thread s"
  by (simp_all add: getitem_def serve_frame split: option.splits)

text \<open>
  No step of a worker assigns \<^verbatim>\<open>self.exception\<close>, whether its load returns or raises.
\<close>

lemma worker_step_frame:
  "exception (worker_step E w s) = exception s"
  "thread (worker_step E w s) = thread s"
  "last_accessed_frame (worker_step E w s) = last_accessed_frame s"
  by (simp_all add: worker_step_def split_beta load_frame_body_frame
      split: worker.splits list.splits option.splits)

text \<open>A worker that an exception has ended takes no further task.\<close>

lemma dead_worker_stays:
  "w < length (workers s) \<Longrightarrow> workers s ! w = Dead e \<Longrightarrow> worker_step E w s = s"
  by (simp add: worker_step_def)

text \<open>Once the error slot is set, every read raises with that cause and changes nothing.\<close>

lemma getitem_sticky:
  "exception s = Some e \<Longrightarrow>
   getitem E i s = (Inl (RuntimeError ''Failure in frame loading thread'' e), s)"
  by (simp add: getitem_def)

lemma fresh_fields:
  "exception (fresh E) = None" "entries (images (fresh E)) = []" "load_calls (fresh E) = []"
  "thread (fresh E) = NotStarted" "tasks (fresh E) = []"
  by (simp_all add: fresh_def LRACache_init_def)

text \<open>What a successful constructor has done.\<close>

lemma init_InrD:
  assumes "init E = Inr s"
  shows "\<exists>s' res. getitem E (start_frame E) (fresh E) = (Inr res, s')
      \<and> s = s'\<lparr>thread := Top\<rparr>
      \<and> LRACache_getitem (images s') (start_frame E) = Some res"
proof -
  obtain r s' where g: "getitem E (start_frame E) (fresh E) = (r, s')" by force
  with assms obtain res where r: "r = Inr res" and s: "s = s'\<lparr>thread := Top\<rparr>"
    by (auto simp: init_def split: sum.splits)
  have "\<not> cache_contains (images (fresh E\<lparr>last_accessed_frame := start_frame E\<rparr>))
      (start_frame E)"
    by (simp add: cache_contains_def cache_keys_def od_keys_def fresh_fields)
  with g r have "LRACache_getitem (images s') (start_frame E) = Some res"
    by (auto simp: getitem_def fresh_fields serve_def split: prod.splits option.splits)
  with g r s show ?thesis by simp
qed

lemma init_thread: "init E = Inr s \<Longrightarrow> thread s = Top"
  by (auto simp: init_def split: prod.splits sum.splits)

section \<open>Reachable states\<close>

lemma run_reachable: "reachable E s \<Longrightarrow> reachable E (run E as s)"
  by (induction as arbitrary: s) (auto intro: reachable.stepped)

lemma boot_reachable: "boot E as = Inr s \<Longrightarrow> reachable E s"
  by (auto simp: boot_def split: sum.splits intro: run_reachable reachable.constructed)

lemma run_append: "run E (as @ bs) s = run E bs (run E as s)"
  by (induction as arbitrary: s) auto

lemma reachable_boot: "reachable E s \<Longrightarrow> \<exists>as. boot E as = Inr s"
proof (induction rule: reachable.induct)
  case (constructed s)
  then have "boot E [] = Inr s" by (simp add: boot_def)
  then show ?case by blast
next
  case (stepped s a)
  then obtain as where "boot E as = Inr s" by blast
  then have "boot E (as @ [a]) = Inr (step E a s)"
    by (auto simp: boot_def run_append split: sum.splits)
  then show ?case by blast
qed

text \<open>The reachable states are the results of the schedules.\<close>

lemma reachable_iff_boot: "reachable E s \<longleftrightarrow> (\<exists>as. boot E as = Inr s)"
  using reachable_boot boot_reachable by blast

lemma cache_ok_load_frame_body:
  "cache_ok m (images s) \<Longrightarrow> cache_ok m (images (snd (load_frame_body E i s)))"
  by (simp add: load_frame_body_def cache_ok_setitem split: sum.splits prod.splits)

lemma cache_ok_serve:
  "cache_ok m (images s) \<Longrightarrow> cache_ok m (images (snd (serve E i s)))"
  using cache_ok_load_frame_body [of m "s\<lparr>load_calls := load_calls s @ [i]\<rparr>" E i]
  by (auto simp: serve_def load_frame_def cache_ok_delitem split: prod.splits option.splits)

lemma cache_ok_step:
  "cache_ok m (images s) \<Longrightarrow> cache_ok m (images (step E a s))"
proof (cases a)
  case (Get i)
  assume "cache_ok m (images s)"
  then show ?thesis
    using cache_ok_serve [of m "s\<lparr>last_accessed_frame := i\<rparr>" E i]
    by (simp add: Get step_def getitem_def split: option.splits)
next
  case (Work w)
  assume "cache_ok m (images s)"
  then show ?thesis
    using cache_ok_load_frame_body [of m s E]
    by (simp add: Work step_def worker_step_def split_beta
        split: worker.splits list.splits option.splits)
next
  case Schedule
  assume "cache_ok m (images s)"
  then show ?thesis
    by (simp add: Schedule step_def loader_step_def add_task_def Let_def
        split: loader_thread.splits option.splits)
qed

text \<open>
  The constructor reads the start frame back from the cache, so it returns only when
  the capacity is at least one; the cache of a constructed loader is well formed.
\<close>

lemma init_cache_ok:
  assumes "init E = Inr s"
  shows "1 \<le> cache_size E \<and> cache_ok (cache_size E) (images s)"
proof -
  from init_InrD [OF assms] obtain s' res where
    g: "getitem E (start_frame E) (fresh E) = (Inr res, s')" and s: "s = s'\<lparr>thread := Top\<rparr>"
    and r: "LRACache_getitem (images s') (start_frame E) = Some res" by blast
  have miss: "\<not> cache_contains (images (fresh E\<lparr>last_accessed_frame := start_frame E\<rparr>))
      (start_frame E)"
    by (simp add: cache_contains_def cache_keys_def od_keys_def fresh_fields)
  obtain v where
    im: "images s' = LRACache_setitem (LRACache_init (cache_size E)) (start_frame E) v"
    using g miss
    by (auto simp: getitem_def serve_def load_frame_def load_frame_body_def fresh_def
        split: sum.splits prod.splits option.splits)
  have pos: "1 \<le> cache_size E"
  proof (rule ccontr)
    assume "\<not> 1 \<le> cache_size E"
    then have "entries (images s') = []"
      by (simp add: im setitem_entries LRACache_init_def)
    with r show False by (simp add: LRACache_getitem_def)
  qed
  have "cache_ok (cache_size E) (LRACache_init (cache_size E) :: (int, 'a) LRACache)"
    using pos
    by (simp add: cache_ok_def LRACache_init_def cache_keys_def od_keys_def cache_len_def)
  then show ?thesis using im s pos by (simp add: cache_ok_setitem)
qed

lemma reachable_cache_ok: "reachable E s \<Longrightarrow> cache_ok (cache_size E) (images s)"
  by (induction rule: reachable.induct) (simp_all add: init_cache_ok cache_ok_step)

text \<open>
  In the \<^verbatim>\<open>for\<close> loop the thread holds the cursor it read at the top of this
  iteration, a frame of the range from there on, and the end computed from that cursor.
\<close>

lemma step_thread_Loop:
  assumes "thread (step E a s) = Loop cur f e"
  shows "thread s = Loop cur f e
       \<or> (thread s = Top \<and> cur = last_accessed_frame s \<and> f = cur
            \<and> e = min (cur + window_size (cache_size E)) (total_frames E))
       \<or> (\<exists>f'. thread s = Loop cur f' e \<and> f' < e \<and> f = f' + 1)"
  using assms
  by (cases a)
     (auto simp: step_def getitem_frame worker_step_frame loader_step_def add_task_def Let_def
       split: loader_thread.splits if_splits option.splits)

lemma reachable_loop:
  "reachable E s \<Longrightarrow> thread s = Loop cur f e \<Longrightarrow>
   cur \<le> f \<and> e = min (cur + window_size (cache_size E)) (total_frames E)"
proof (induction arbitrary: f rule: reachable.induct)
  case (constructed s)
  then show ?case by (simp add: init_thread)
next
  case (stepped s a)
  from step_thread_Loop [OF stepped.prems] stepped.IH show ?case by fastforce
qed

text \<open>The concrete loaders.\<close>

lemmas eval_defs =
  boot_def get_after_def init_def iteration_def sound_env_def corrupt_env_def
  failing_bar_env_def fresh_def getitem_def serve_def load_frame_def load_frame_body_def
  py_index_def LRACache_init_def LRACache_setitem_def LRACache_getitem_def
  LRACache_delitem_def cache_contains_def cache_keys_def od_keys_def step_def
  loader_step_def worker_step_def window_size_def total_frames_def add_task_def Let_def

lemma init_sound: "init sound_env = Inr warm"
  by (simp add: warm_def eval_defs)

lemma warm_run_reachable: "reachable sound_env (run sound_env as warm)"
  by (rule run_reachable) (rule reachable.constructed, rule init_sound)

section \<open>The consumer\<close>








text \<open>
  C8 (cursor update), as the code has it. A read that finds no recorded background
  error assigns the cursor first and serves the request from the state that already
  holds the new cursor; the cursor is the index afterwards on every path, also when
  the load raises. A read that finds a recorded error raises before the assignment
  and changes nothing.
\<close>

theorem cursor_update:
  "(exception s = None \<longrightarrow>
      getitem E i s = serve E i (s\<lparr>last_accessed_frame := i\<rparr>)
      \<and> last_accessed_frame (snd (getitem E i s)) = i)
   \<and> (exception s \<noteq> None \<longrightarrow> snd (getitem E i s) = s)"
  by (auto simp: getitem_def serve_frame)

theorem cursor_update_witness:
  "exception warm = None \<and> last_accessed_frame warm = 0
   \<and> last_accessed_frame (snd (getitem sound_env 2 warm)) = 2
   \<and> exception (warm\<lparr>exception := Some ProgressError\<rparr>) \<noteq> None
   \<and> last_accessed_frame
        (snd (getitem sound_env 2 (warm\<lparr>exception := Some ProgressError\<rparr>))) = 0"
proof -
  have h1: "exception warm = None" by (simp add: warm_def eval_defs)
  have c: "last_accessed_frame warm = 0" by (simp add: warm_def eval_defs)
  show ?thesis
    using cursor_update [of warm sound_env 2]
      cursor_update [of "warm\<lparr>exception := Some ProgressError\<rparr>" sound_env 2] h1 c
    by (simp add: serve_frame)
qed

text \<open>
  C8 as stated fails. The progress bar of \<open>failing_bar_env\<close> raises at the end of the
  first scheduling iteration, which records the error; the cursor is 0. The read of
  index 3 that follows raises the wrapped error and the cursor is still 0.
\<close>

theorem cursor_kept_counterexample:
  "map_sum id exception (boot failing_bar_env iteration) = Inr (Some ProgressError)
   \<and> map_sum id last_accessed_frame (boot failing_bar_env iteration) = Inr 0
   \<and> get_after failing_bar_env iteration 3
       = Inl (RuntimeError ''Failure in frame loading thread'' ProgressError)
   \<and> map_sum id last_accessed_frame (boot failing_bar_env (iteration @ [Get 3])) = Inr 0"
  by code_simp

text \<open>
  C9 (eager start frame). While the constructor loads the start frame the scheduling
  thread is not started. When the constructor returns, the thread is at the top of
  its loop with an empty queue, the start frame is in the cache, and \<^verbatim>\<open>_load_frame\<close>
  has been called once, for the start frame; reading the start frame then returns a
  value and the calls are still that one.
\<close>

theorem eager_start_frame:
  assumes "init E = Inr s"
  shows "thread (snd (getitem E (start_frame E) (fresh E))) = NotStarted
       \<and> thread s = Top \<and> tasks s = []
       \<and> cache_contains (images s) (start_frame E)
       \<and> load_calls s = [start_frame E]
       \<and> (\<exists>v. fst (getitem E (start_frame E) s) = Inr v)
       \<and> load_calls (snd (getitem E (start_frame E) s)) = [start_frame E]"
proof -
  from init_InrD [OF assms] obtain s' res where
    g: "getitem E (start_frame E) (fresh E) = (Inr res, s')" and s: "s = s'\<lparr>thread := Top\<rparr>"
    and r: "LRACache_getitem (images s') (start_frame E) = Some res" by blast
  have s'_eq: "s' = snd (getitem E (start_frame E) (fresh E))" using g by simp
  have ex: "exception s' = None" unfolding s'_eq by (simp add: getitem_frame fresh_fields)
  have th: "thread s' = NotStarted" unfolding s'_eq by (simp add: getitem_frame fresh_fields)
  have tk: "tasks s' = []" unfolding s'_eq by (simp add: getitem_frame fresh_fields)
  have lc: "load_calls s' = [start_frame E]"
    unfolding s'_eq
    by (simp add: getitem_def fresh_fields serve_load_calls cache_contains_def cache_keys_def
        od_keys_def)
  have c: "cache_contains (images s) (start_frame E)"
    using r s by (simp add: contains_iff_getitem)
  have hit: "getitem E (start_frame E) s
      = (Inr res, s\<lparr>last_accessed_frame := start_frame E,
                     images := LRACache_delitem (images s) (start_frame E)\<rparr>)"
    using ex c r s by (simp add: getitem_def serve_def)
  show ?thesis using th tk lc c hit s s'_eq by simp
qed

theorem eager_start_frame_witness:
  "init sound_env = Inr warm \<and> start_frame sound_env = 0 \<and> thread warm = Top
   \<and> cache_contains (images warm) 0 \<and> load_calls warm = [0]
   \<and> fst (getitem sound_env 0 warm) = Inr 5
   \<and> load_calls (snd (getitem sound_env 0 warm)) = [0]"
proof -
  have st: "start_frame sound_env = 0" by (simp add: sound_env_def)
  have v: "fst (getitem sound_env 0 warm) = Inr 5" by (simp add: warm_def eval_defs)
  show ?thesis using eager_start_frame [OF init_sound] init_sound st v by simp
qed




section \<open>The scheduling thread\<close>

lemma window_size_pos: "0 < window_size c \<Longrightarrow> window_size c = (3 * c) div 4"
  by (auto simp: window_size_def split: if_splits)

text \<open>The only step of the thread that changes the queue: a frame of the loop, absent
  from the cache at that step, goes to the end of the queue.\<close>

lemma loader_step_tasks:
  "tasks (loader_step E s) = tasks s
   \<or> (\<exists>cur f e. thread s = Loop cur f e \<and> f < e \<and> \<not> cache_contains (images s) f
         \<and> tasks (loader_step E s) = tasks s @ [f])"
  by (auto simp: loader_step_def add_task_def Let_def split: loader_thread.splits option.splits)

text \<open>
  C6 (window bound). An iteration starts by reading the cursor \<open>cur\<close> and fixing the
  end of the range from it. In every reachable state, under every interleaving with
  the consumer and the workers, a step of the scheduling thread leaves the queue
  alone or appends one frame \<open>f\<close> of the current iteration with
  \<open>cur \<le> f < min (cur + K) total\<close>, where \<open>K\<close> is the floor of three quarters of the
  cache size.
\<close>

theorem window_bound:
  assumes "reachable E s"
  shows "(thread s = Top \<longrightarrow>
            thread (loader_step E s) =
              Loop (last_accessed_frame s) (last_accessed_frame s)
                (min (last_accessed_frame s + window_size (cache_size E)) (total_frames E)))
       \<and> (tasks (loader_step E s) = tasks s
          \<or> (\<exists>cur frame e. thread s = Loop cur frame e
                \<and> tasks (loader_step E s) = tasks s @ [frame]
                \<and> cur \<le> frame
                \<and> frame < min (cur + (3 * cache_size E) div 4) (total_frames E)))"
proof (intro conjI impI)
  assume "thread s = Top"
  then show "thread (loader_step E s) =
      Loop (last_accessed_frame s) (last_accessed_frame s)
        (min (last_accessed_frame s + window_size (cache_size E)) (total_frames E))"
    by (simp add: loader_step_def Let_def)
next
  from loader_step_tasks [of E s]
  show "tasks (loader_step E s) = tasks s
          \<or> (\<exists>cur frame e. thread s = Loop cur frame e
                \<and> tasks (loader_step E s) = tasks s @ [frame]
                \<and> cur \<le> frame
                \<and> frame < min (cur + (3 * cache_size E) div 4) (total_frames E))"
  proof
    assume "tasks (loader_step E s) = tasks s"
    then show ?thesis by simp
  next
    assume "\<exists>cur f e. thread s = Loop cur f e \<and> f < e \<and> \<not> cache_contains (images s) f
         \<and> tasks (loader_step E s) = tasks s @ [f]"
    then obtain cur f e where l: "thread s = Loop cur f e" and lt: "f < e"
      and t: "tasks (loader_step E s) = tasks s @ [f]" by blast
    from reachable_loop [OF assms l]
    have le: "cur \<le> f" and e: "e = min (cur + window_size (cache_size E)) (total_frames E)"
      by simp_all
    from lt le e have "0 < window_size (cache_size E)" by simp
    then have "window_size (cache_size E) = (3 * cache_size E) div 4"
      by (rule window_size_pos)
    with lt e have "f < min (cur + (3 * cache_size E) div 4) (total_frames E)" by simp
    with l t le show ?thesis by blast
  qed
qed

theorem window_bound_witness:
  "reachable sound_env warm \<and> thread warm = Top
   \<and> thread (loader_step sound_env warm) = Loop 0 0 3
   \<and> reachable sound_env (run sound_env [Schedule, Schedule] warm)
   \<and> thread (run sound_env [Schedule, Schedule] warm) = Loop 0 1 3
   \<and> tasks (loader_step sound_env (run sound_env [Schedule, Schedule] warm))
       = tasks (run sound_env [Schedule, Schedule] warm) @ [1]
   \<and> (1::int) < min (0 + (3 * cache_size sound_env) div 4) (total_frames sound_env)"
proof -
  have r0: "reachable sound_env warm" using warm_run_reachable [of "[]"] by simp
  have r2: "reachable sound_env (run sound_env [Schedule, Schedule] warm)"
    by (rule warm_run_reachable)
  have e: "thread warm = Top" "last_accessed_frame warm = 0"
    "window_size (cache_size sound_env) = 3" "total_frames sound_env = 4"
    "thread (run sound_env [Schedule, Schedule] warm) = Loop 0 1 3"
    "tasks (loader_step sound_env (run sound_env [Schedule, Schedule] warm))
       = tasks (run sound_env [Schedule, Schedule] warm) @ [1]"
    by (simp_all add: warm_def eval_defs)
  show ?thesis
    using window_bound [OF r0] window_bound [OF r2] r0 r2 e by simp
qed

text \<open>
  C7 (no duplicate work), as the code has it. The only test before a task is queued
  is membership in the cache: a step of the scheduling thread queues a frame only if
  that frame is absent from the cache at that step. A read of an index in the cache
  calls no load; a read of an index absent from the cache calls \<^verbatim>\<open>_load_frame\<close> once,
  whatever the queue and the workers hold.
\<close>

theorem enqueue_only_absent:
  "(tasks (loader_step E s) = tasks s
      \<or> (\<exists>cur frame e. thread s = Loop cur frame e
            \<and> \<not> cache_contains (images s) frame
            \<and> tasks (loader_step E s) = tasks s @ [frame]))
   \<and> (exception s = None \<and> cache_contains (images s) i \<longrightarrow>
        load_calls (snd (getitem E i s)) = load_calls s)
   \<and> (exception s = None \<and> \<not> cache_contains (images s) i \<longrightarrow>
        load_calls (snd (getitem E i s)) = load_calls s @ [i])"
  using loader_step_tasks [of E s]
  by (auto simp: getitem_def serve_load_calls)

theorem enqueue_only_absent_witness:
  "thread (run sound_env [Schedule, Schedule] warm) = Loop 0 1 3
   \<and> \<not> cache_contains (images (run sound_env [Schedule, Schedule] warm)) 1
   \<and> tasks (loader_step sound_env (run sound_env [Schedule, Schedule] warm))
       = tasks (run sound_env [Schedule, Schedule] warm) @ [1]
   \<and> exception warm = None \<and> cache_contains (images warm) 0
   \<and> load_calls (snd (getitem sound_env 0 warm)) = load_calls warm
   \<and> \<not> cache_contains (images warm) 1
   \<and> load_calls (snd (getitem sound_env 1 warm)) = load_calls warm @ [1]"
proof -
  have e: "thread (run sound_env [Schedule, Schedule] warm) = Loop 0 1 3"
    "\<not> cache_contains (images (run sound_env [Schedule, Schedule] warm)) 1"
    "tasks (loader_step sound_env (run sound_env [Schedule, Schedule] warm))
       = tasks (run sound_env [Schedule, Schedule] warm) @ [1]"
    "exception warm = None" "cache_contains (images warm) 0"
    "\<not> cache_contains (images warm) 1"
    by (simp_all add: warm_def eval_defs)
  show ?thesis
    using enqueue_only_absent [of sound_env "run sound_env [Schedule, Schedule] warm" 0]
      enqueue_only_absent [of sound_env warm 0] enqueue_only_absent [of sound_env warm 1] e
    by simp
qed

text \<open>
  C7 as stated fails, in both halves. After the first iteration the queue holds
  frames 1 and 2. The consumer reads frame 1 (a miss, loaded by the consumer), the
  thread wakes, starts the iteration from cursor 1 and reaches frame 2, which is
  still queued and not in the cache: it is queued again. And when worker 0 has taken
  frame 1 from the queue and is inside \<^verbatim>\<open>_load_frame(1)\<close>, a read of frame 1 calls
  \<^verbatim>\<open>_load_frame(1)\<close> again while the worker is still loading.
\<close>

theorem duplicate_work_counterexample:
  "map_sum id tasks (boot sound_env iteration) = Inr [1, 2]
   \<and> map_sum id tasks
        (boot sound_env (iteration @ [Get 1, Schedule, Schedule, Schedule, Schedule]))
       = Inr [1, 2, 2]
   \<and> map_sum id workers (boot sound_env (iteration @ [Work 0, Get 1]))
       = Inr (Loading 1 # replicate 9 Idle)
   \<and> map_sum id load_calls (boot sound_env (iteration @ [Work 0, Get 1])) = Inr [0, 1, 1]"
  by code_simp

section \<open>A load that fails in a worker\<close>

text \<open>
  C1 (sticky background failure) on the code. In \<open>corrupt_env\<close> the scheduling
  thread queues frames 1 and 2, worker 0 takes frame 1 and its load raises. The worker
  has ended with that exception, the error slot is still empty, and the reads of
  frames 0 and 2 that follow return frames. (What the code does keep is
  \<open>getitem_sticky\<close>: a slot that is set fails every read; no worker step sets it,
  \<open>worker_step_frame\<close>.)
\<close>

theorem background_failure_lost:
  "map_sum id workers (boot corrupt_env (iteration @ [Work 0, Work 0]))
     = Inr (Dead (LoadError ''1.jpg'') # replicate 9 Idle)
   \<and> map_sum id exception (boot corrupt_env (iteration @ [Work 0, Work 0])) = Inr None
   \<and> get_after corrupt_env (iteration @ [Work 0, Work 0]) 0 = Inr 5
   \<and> get_after corrupt_env (iteration @ [Work 0, Work 0]) 2 = Inr 5"
  by code_simp

text \<open>
  C5 (worker robustness) on the code. In the same run worker 0 takes frame 1 and
  leaves frame 2 queued; its load raises and the worker has ended. Two more turns of
  worker 0 change nothing: frame 2 is still queued and the worker is still ended.
\<close>

theorem failed_worker_terminates:
  "map_sum id tasks (boot corrupt_env (iteration @ [Work 0])) = Inr [2]
   \<and> map_sum id workers (boot corrupt_env (iteration @ [Work 0]))
       = Inr (Loading 1 # replicate 9 Idle)
   \<and> map_sum id workers (boot corrupt_env (iteration @ [Work 0, Work 0]))
       = Inr (Dead (LoadError ''1.jpg'') # replicate 9 Idle)
   \<and> map_sum id tasks (boot corrupt_env (iteration @ [Work 0, Work 0, Work 0, Work 0]))
       = Inr [2]
   \<and> map_sum id workers (boot corrupt_env (iteration @ [Work 0, Work 0, Work 0, Work 0]))
       = Inr (Dead (LoadError ''1.jpg'') # replicate 9 Idle)"
  by code_simp

end
